theory Spec2Isabelle
  imports Complex_Main "HOL-Library.Char_ord" "HOL-Library.List_Lexorder"
begin

section \<open>Python values held in the cells of the per-paper table\<close>

text \<open>
  The notebook \<^verbatim>\<open>notebooks/run_eval_single.ipynb\<close> threads one pandas table through its
  stages. A cell holds an arbitrary Python object: \<^verbatim>\<open>None\<close>, the float \<^verbatim>\<open>nan\<close> that a left
  merge writes where the right side has no row, a boolean, an integer, a string, a list or a
  dictionary (an association list, in insertion order).
\<close>

datatype pyval =
    PNone
  | PNaN
  | PBool bool
  | PInt int
  | PStr string
  | PList "pyval list"
  | PDict "(string \<times> pyval) list"

datatype py_error = KeyError | TypeError | AttributeError | ValueError | EvalError

text \<open>\<^verbatim>\<open>isinstance(x, str)\<close> and \<^verbatim>\<open>isinstance(x, list)\<close>.\<close>

fun isinstance_str :: "pyval \<Rightarrow> bool" where
  "isinstance_str (PStr s) = True"
| "isinstance_str v = False"

fun isinstance_list :: "pyval \<Rightarrow> bool" where
  "isinstance_list (PList xs) = True"
| "isinstance_list v = False"

text \<open>\<^verbatim>\<open>len(x)\<close>: defined on strings, lists and dictionaries, a \<^verbatim>\<open>TypeError\<close> elsewhere.\<close>

fun py_len :: "pyval \<Rightarrow> py_error + nat" where
  "py_len (PStr s) = Inr (length s)"
| "py_len (PList xs) = Inr (length xs)"
| "py_len (PDict kvs) = Inr (length (remdups (map fst kvs)))"
| "py_len v = Inl TypeError"

text \<open>\<^verbatim>\<open>bool(x)\<close>: Python truthiness (\<^verbatim>\<open>nan\<close> is a non-zero float, hence true).\<close>

fun py_bool :: "pyval \<Rightarrow> bool" where
  "py_bool PNone = False"
| "py_bool PNaN = True"
| "py_bool (PBool b) = b"
| "py_bool (PInt i) = (i \<noteq> 0)"
| "py_bool (PStr s) = (s \<noteq> [])"
| "py_bool (PList xs) = (xs \<noteq> [])"
| "py_bool (PDict kvs) = (kvs \<noteq> [])"

text \<open>\<^verbatim>\<open>d.get(key, default)\<close> on a dictionary.\<close>

definition dict_get :: "(string \<times> pyval) list \<Rightarrow> string \<Rightarrow> pyval \<Rightarrow> pyval" where
  "dict_get d key dflt = (case map_of d key of None \<Rightarrow> dflt | Some v \<Rightarrow> v)"

text \<open>Running a list of fallible steps in order: the first exception wins.\<close>

fun sequence_sum :: "('e + 'a) list \<Rightarrow> 'e + 'a list" where
  "sequence_sum [] = Inr []"
| "sequence_sum (x # xs) =
     (case x of
        Inl e \<Rightarrow> Inl e
      | Inr v \<Rightarrow> (case sequence_sum xs of Inl e \<Rightarrow> Inl e | Inr vs \<Rightarrow> Inr (v # vs)))"

section \<open>The per-paper table\<close>

text \<open>
  \<^verbatim>\<open>resp_df\<close> after the merge with \<^verbatim>\<open>flat_orig_df\<close> (cell 3, lines 184-190): the reviewer
  result of a paper and the ground-truth columns the later stages read. The annotation
  columns come out of the normalizer's \<^verbatim>\<open>list\<close> aggregation and are lists of strings.
\<close>

record resp_row =
  doi :: string
  parsed :: pyval
  is_error :: bool
  errors :: pyval
  error_location :: "string list"
  error_annotation :: "string list"

text \<open>
  The table after the left merge with \<^verbatim>\<open>judge_df\<close> (line 230): two more columns, holding
  \<^verbatim>\<open>nan\<close> where no judge record carries the paper's identifier.
\<close>

record scored_row = resp_row +
  matches :: pyval
  match_descriptions :: pyval

section \<open>The metrics aggregator: \<^verbatim>\<open>compute_all_metrics\<close>\<close>

text \<open>
  Step 2 (lines 28-30). \<^verbatim>\<open>matches\<close> is \<^verbatim>\<open>eval(x) if isinstance(x, str) else []\<close>; Python's
  \<^verbatim>\<open>eval\<close> is a parameter of the model (it may raise). The other two columns keep a list
  and replace anything else by the empty list.
\<close>

definition norm_matches :: "(string \<Rightarrow> py_error + pyval) \<Rightarrow> pyval \<Rightarrow> py_error + pyval" where
  "norm_matches py_eval x = (case x of PStr s \<Rightarrow> py_eval s | _ \<Rightarrow> Inr (PList []))"

definition norm_list :: "pyval \<Rightarrow> pyval list" where
  "norm_list x = (case x of PList xs \<Rightarrow> xs | _ \<Rightarrow> [])"

text \<open>Step 3 (lines 33-38): the per-paper counts, as signed integers.\<close>

record paper_counts =
  pc_doi :: string
  k_i :: int
  TP_i :: int
  FP_i :: int
  FN_i :: int

definition count_row :: "scored_row \<Rightarrow> nat \<Rightarrow> paper_counts" where
  "count_row r len_m =
     (let md = norm_list (match_descriptions r);
          es = norm_list (errors r);
          k = int (length (error_annotation r));
          tp = max (int len_m) (int (length md))
      in \<lparr>pc_doi = doi r, k_i = k, TP_i = tp, FP_i = int (length es) - tp, FN_i = k - tp\<rparr>)"

text \<open>
  Steps 4-6 (lines 40-65). Python's \<^verbatim>\<open>/\<close> is modelled by exact division on the reals
  (float rounding is not modelled). On an empty table pandas yields no number for the two
  means and for \<^verbatim>\<open>PPR\<close> (\<^verbatim>\<open>0 / 0\<close>): the model returns \<open>None\<close> there.
\<close>

definition safe_ratio :: "int \<Rightarrow> int \<Rightarrow> real" where
  "safe_ratio num den = (if den > 0 then real_of_int num / real_of_int den else 0)"

definition series_mean :: "real list \<Rightarrow> real option" where
  "series_mean xs = (if xs = [] then None else Some (sum_list xs / real (length xs)))"

record metrics =
  N :: nat
  precision_micro :: real
  recall_micro :: real
  precision_macro :: "real option"
  recall_macro :: "real option"
  PPR :: "real option"
  per_paper :: "paper_counts list"

definition aggregate :: "paper_counts list \<Rightarrow> metrics" where
  "aggregate df =
     (let TP_total = sum_list (map TP_i df);
          FP_total = sum_list (map FP_i df);
          FN_total = sum_list (map FN_i df);
          per_prec = map (\<lambda>row. safe_ratio (TP_i row) (TP_i row + FP_i row)) df;
          per_rec = map (\<lambda>row. safe_ratio (TP_i row) (TP_i row + FN_i row)) df;
          perfect_mask = map (\<lambda>row. TP_i row = k_i row) df
      in \<lparr>N = length df,
          precision_micro = safe_ratio TP_total (TP_total + FP_total),
          recall_micro = safe_ratio TP_total (TP_total + FN_total),
          precision_macro = series_mean per_prec,
          recall_macro = series_mean per_rec,
          PPR = (if df = [] then None
                 else Some (real (length (filter id perfect_mask)) / real (length df))),
          per_paper = df\<rparr>)"

definition compute_all_metrics ::
    "(string \<Rightarrow> py_error + pyval) \<Rightarrow> scored_row list \<Rightarrow> py_error + metrics" where
  "compute_all_metrics py_eval resp_df =
     (case sequence_sum (map (\<lambda>r. norm_matches py_eval (matches r)) resp_df) of
        Inl e \<Rightarrow> Inl e
      | Inr ms \<Rightarrow>
         (case sequence_sum (map py_len ms) of
            Inl e \<Rightarrow> Inl e
          | Inr lens \<Rightarrow> Inr (aggregate (map2 count_row resp_df lens))))"

section \<open>The record normalizer: \<^verbatim>\<open>groupby('doi/arxiv_id').agg(agg_dict)\<close>\<close>

text \<open>
  Cell 2 (lines 106-116). A raw row is the paper identifier together with the remaining
  columns, name and value, in column order. \<open>Null\<close> is a missing value (\<^verbatim>\<open>None\<close> or
  \<^verbatim>\<open>nan\<close>, which pandas' \<^verbatim>\<open>notna\<close> treats alike), \<open>Atom\<close> a scalar and \<open>Cells\<close> a
  Python list.
\<close>

datatype cell = Null | Atom string | Cells "cell list"

type_synonym raw_row = "string \<times> (string \<times> cell) list"

datatype aggregator = AggList | AggFirst

definition list_cols :: "string list" where
  "list_cols = [''paper_category'', ''error_location'', ''error_annotation'']"

text \<open>
  \<^verbatim>\<open>{col: (list if col in list_cols else 'first') for col in orig_df.columns
     if col != 'doi/arxiv_id'}\<close>
\<close>

definition agg_dict :: "string list \<Rightarrow> (string \<times> aggregator) list" where
  "agg_dict columns =
     map (\<lambda>col. (col, if col \<in> set list_cols then AggList else AggFirst))
       (filter (\<lambda>col. col \<noteq> ''doi/arxiv_id'') columns)"

text \<open>
  \<^verbatim>\<open>list\<close> collects the group's values in row order; pandas' \<^verbatim>\<open>'first'\<close> is the first
  non-null value of the group, and null when there is none.
\<close>

fun apply_agg :: "aggregator \<Rightarrow> cell list \<Rightarrow> cell" where
  "apply_agg AggList vs = Cells vs"
| "apply_agg AggFirst vs = (case filter (\<lambda>v. v \<noteq> Null) vs of [] \<Rightarrow> Null | v # _ \<Rightarrow> v)"

definition column_of :: "string \<Rightarrow> raw_row \<Rightarrow> cell" where
  "column_of col r = (case map_of (snd r) col of None \<Rightarrow> Null | Some v \<Rightarrow> v)"

text \<open>
  \<^verbatim>\<open>groupby\<close> sorts the groups by key (its default \<^verbatim>\<open>sort=True\<close>) and keeps the row order
  inside a group; \<^verbatim>\<open>as_index=False\<close> keeps the key as a column.
\<close>

definition groupby_agg :: "string list \<Rightarrow> raw_row list \<Rightarrow> raw_row list" where
  "groupby_agg columns orig_df =
     map (\<lambda>key. (key,
            map (\<lambda>(col, f). (col, apply_agg f (map (column_of col)
                                   (filter (\<lambda>r. fst r = key) orig_df))))
              (agg_dict columns)))
       (sort (remdups (map fst orig_df)))"

text \<open>A table is well formed when every row carries exactly the table's columns.\<close>

definition wf_table :: "string list \<Rightarrow> raw_row list \<Rightarrow> bool" where
  "wf_table columns df \<longleftrightarrow>
     distinct columns \<and>
     list_all (\<lambda>r. map fst (snd r) = filter (\<lambda>col. col \<noteq> ''doi/arxiv_id'') columns) df"

text \<open>What a second run does to a row: each list-valued column is wrapped once more.\<close>

definition wrap_list_cols :: "raw_row \<Rightarrow> raw_row" where
  "wrap_list_cols r =
     (fst r, map (\<lambda>(col, v). (col, if col \<in> set list_cols then Cells [v] else v)) (snd r))"

section \<open>The reviewer stage: bounded retries\<close>

text \<open>
  Cell 3, lines 171-181. The completion client is external: \<open>completion n qry\<close> is the
  outcome of the call made after \<open>n\<close> earlier calls, \<open>Inl\<close> an exception caught by
  \<^verbatim>\<open>except Exception\<close> and \<open>Inr\<close> the response. The loop state is the number of calls made
  so far and the \<^verbatim>\<open>responses\<close> list.
\<close>

fun attempts ::
    "(nat \<Rightarrow> 'q \<Rightarrow> 'e + 'r) \<Rightarrow> 'q \<Rightarrow> nat list \<Rightarrow> nat \<times> 'r option list \<Rightarrow> nat \<times> 'r option list" where
  "attempts completion qry [] (calls, responses) = (calls, responses)"
| "attempts completion qry (attempt # rest) (calls, responses) =
     (case completion calls qry of
        Inr res \<Rightarrow> (Suc calls, responses @ [Some res])
      | Inl exc \<Rightarrow>
          attempts completion qry rest
            (Suc calls, if attempt = 5 then responses @ [None] else responses))"

fun reviewer_loop ::
    "(nat \<Rightarrow> 'q \<Rightarrow> 'e + 'r) \<Rightarrow> 'q list \<Rightarrow> nat \<times> 'r option list \<Rightarrow> nat \<times> 'r option list" where
  "reviewer_loop completion [] st = st"
| "reviewer_loop completion (qry # qrys) st =
     reviewer_loop completion qrys (attempts completion qry [1..<6] st)"

section \<open>The response parser and the reviewer table\<close>

text \<open>
  Modelled from the spec: \<^verbatim>\<open>extract_response_dict\<close> is imported from the repository's
  \<^verbatim>\<open>src\<close> package, which is not among the source files. Section 4.4 of the specification
  gives its contract: an absent response, or a text that cannot be interpreted as the
  expected structured form, yields \<^verbatim>\<open>parsed = False\<close>; a successful parse yields
  \<^verbatim>\<open>parsed = True\<close>, the model's own \<^verbatim>\<open>has_error\<close> and its list fields, an absent or null
  list field becoming the empty list. The interpretation of the text (JSON decoding and
  the check of the required keys) is the parameter \<open>interpret\<close>.
\<close>

definition list_field :: "(string \<times> pyval) list \<Rightarrow> string \<Rightarrow> pyval" where
  "list_field d key = (case map_of d key of Some (PList xs) \<Rightarrow> PList xs | _ \<Rightarrow> PList [])"

definition extract_response_dict ::
    "('t \<Rightarrow> (string \<times> pyval) list option) \<Rightarrow> 't option \<Rightarrow> (string \<times> pyval) list" where
  "extract_response_dict interpret raw_response =
     (case raw_response of
        None \<Rightarrow> [(''parsed'', PBool False)]
      | Some text \<Rightarrow>
         (case interpret text of
            None \<Rightarrow> [(''parsed'', PBool False)]
          | Some d \<Rightarrow>
              [(''parsed'', PBool True),
               (''has_error'', dict_get d ''has_error'' PNone),
               (''errors'', list_field d ''errors''),
               (''matches'', list_field d ''matches'')]))"

text \<open>
  One row of \<^verbatim>\<open>flat_orig_df\<close>, as far as the later stages read it (the paper content only
  enters the reviewer prompt).
\<close>

record paper_record =
  pr_doi :: string
  pr_error_location :: "string list"
  pr_error_annotation :: "string list"

text \<open>
  Lines 184-190. \<^verbatim>\<open>papers\<close> is the identifier column of \<^verbatim>\<open>flat_orig_df\<close>, whose
  identifiers are distinct, so the inner merge on the identifier pairs the i-th reviewer
  result with the i-th paper record. The \<^verbatim>\<open>DataFrame\<close> constructor raises a
  \<^verbatim>\<open>ValueError\<close> on columns of different lengths.
\<close>

definition resp_row_of :: "paper_record \<Rightarrow> (string \<times> pyval) list \<Rightarrow> resp_row" where
  "resp_row_of p r =
     \<lparr>doi = pr_doi p,
      parsed = dict_get r ''parsed'' (PBool False),
      is_error = py_bool (dict_get r ''has_error'' (PBool True)),
      errors = dict_get r ''errors'' (PList []),
      error_location = pr_error_location p,
      error_annotation = pr_error_annotation p\<rparr>"

definition resp_df_of ::
    "paper_record list \<Rightarrow> (string \<times> pyval) list list \<Rightarrow> py_error + resp_row list" where
  "resp_df_of flat_orig_df parsed_results =
     (if length flat_orig_df = length parsed_results
      then Inr (map2 resp_row_of flat_orig_df parsed_results)
      else Inl ValueError)"

section \<open>The judge stage\<close>

text \<open>
  Lines 192-209. The judge prompt of a paper is kept structured (the payload before
  \<^verbatim>\<open>json.dumps\<close>): the annotations zipped from the two ground-truth columns and the
  reviewer's predictions.
\<close>

record judge_prompt =
  annotations :: "(string \<times> string) list"
  predictions :: pyval

text \<open>
  Line 192: \<^verbatim>\<open>resp_df.loc[resp_df["parsed"] & resp_df["is_error"], :]\<close>. The mask is
  computed cell by cell. The parser's contract makes \<^verbatim>\<open>parsed\<close> a boolean, and the cell is
  then the conjunction. Outside the contract pandas applies Python's \<^verbatim>\<open>&\<close> and reads the
  result as a truth value: an integer is combined bitwise with the boolean (1 and
  \<^verbatim>\<open>True\<close> select the row), a null cell gives \<^verbatim>\<open>False\<close>, and a string, a list or a
  dictionary raises a \<^verbatim>\<open>TypeError\<close>.
\<close>

fun mask_cell :: "pyval \<Rightarrow> bool \<Rightarrow> py_error + bool" where
  "mask_cell (PBool b) e = Inr (b \<and> e)"
| "mask_cell (PInt i) e = Inr (odd i \<and> e)"
| "mask_cell PNone e = Inr False"
| "mask_cell PNaN e = Inr False"
| "mask_cell (PStr s) e = Inl TypeError"
| "mask_cell (PList xs) e = Inl TypeError"
| "mask_cell (PDict kvs) e = Inl TypeError"

definition error_cases :: "resp_row list \<Rightarrow> py_error + resp_row list" where
  "error_cases resp_df =
     (case sequence_sum (map (\<lambda>row. mask_cell (parsed row) (is_error row)) resp_df) of
        Inl e \<Rightarrow> Inl e
      | Inr keep \<Rightarrow> Inr (map fst (filter snd (zip resp_df keep))))"

definition judge_qry :: "resp_row \<Rightarrow> judge_prompt" where
  "judge_qry row =
     \<lparr>annotations = zip (error_location row) (error_annotation row),
      predictions = errors row\<rparr>"

text \<open>
  Lines 220-228. Iterating \<^verbatim>\<open>matches\<close> raises a \<^verbatim>\<open>TypeError\<close> on a value that is not
  iterable, and \<^verbatim>\<open>m.get\<close> an \<^verbatim>\<open>AttributeError\<close> on a match that is not a dictionary.
\<close>

fun py_iter :: "pyval \<Rightarrow> py_error + pyval list" where
  "py_iter (PList xs) = Inr xs"
| "py_iter (PStr s) = Inr (map (\<lambda>c. PStr [c]) s)"
| "py_iter (PDict kvs) = Inr (map PStr (remdups (map fst kvs)))"
| "py_iter v = Inl TypeError"

fun get_description :: "pyval \<Rightarrow> py_error + pyval" where
  "get_description (PDict d) = Inr (dict_get d ''description'' (PStr []))"
| "get_description v = Inl AttributeError"

record judge_record =
  jr_doi :: string
  jr_matches :: pyval
  jr_match_descriptions :: pyval

definition make_record :: "string \<Rightarrow> (string \<times> pyval) list \<Rightarrow> py_error + judge_record" where
  "make_record d res =
     (let ms = dict_get res ''matches'' (PList [])
      in case py_iter ms of
           Inl e \<Rightarrow> Inl e
         | Inr items \<Rightarrow>
            (case sequence_sum (map get_description items) of
               Inl e \<Rightarrow> Inl e
             | Inr descriptions \<Rightarrow>
                 Inr \<lparr>jr_doi = d, jr_matches = ms,
                      jr_match_descriptions = PList descriptions\<rparr>))"

text \<open>
  \<^verbatim>\<open>for doi, res in zip(resp_df["doi/arxiv_id"], parsed_results)\<close>: the identifiers are
  those of the whole table, the results those of the judged papers.
\<close>

definition judge_records ::
    "resp_row list \<Rightarrow> (string \<times> pyval) list list \<Rightarrow> py_error + judge_record list" where
  "judge_records resp_df parsed_results =
     sequence_sum (map2 make_record (map doi resp_df) parsed_results)"

definition with_judge :: "resp_row \<Rightarrow> pyval \<Rightarrow> pyval \<Rightarrow> scored_row" where
  "with_judge r m md =
     \<lparr>doi = doi r, parsed = parsed r, is_error = is_error r, errors = errors r,
      error_location = error_location r, error_annotation = error_annotation r,
      matches = m, match_descriptions = md\<rparr>"

text \<open>
  Lines 229-230: \<^verbatim>\<open>resp_df.merge(judge_df, on="doi/arxiv_id", how="left")\<close>. A table built
  from no records has no columns, and the merge then raises a \<^verbatim>\<open>KeyError\<close> for the key.
\<close>

definition merge_left :: "resp_row list \<Rightarrow> judge_record list \<Rightarrow> py_error + scored_row list" where
  "merge_left resp_df judge_df =
     (if judge_df = [] then Inl KeyError
      else Inr (concat (map (\<lambda>r.
              case filter (\<lambda>j. jr_doi j = doi r) judge_df of
                [] \<Rightarrow> [with_judge r PNaN PNaN]
              | js \<Rightarrow> map (\<lambda>j. with_judge r (jr_matches j) (jr_match_descriptions j)) js)
            resp_df)))"

text \<open>
  The batched judge call returns one slot per prompt, by position; \<open>judge\<close> is the external
  judge followed by the parser, as a function of the prompt.
\<close>

definition judge_stage ::
    "(judge_prompt \<Rightarrow> (string \<times> pyval) list) \<Rightarrow> resp_row list \<Rightarrow> py_error + scored_row list" where
  "judge_stage judge resp_df =
     (case error_cases resp_df of
        Inl e \<Rightarrow> Inl e
      | Inr cases \<Rightarrow>
         (let qrys = map judge_qry cases;
              parsed_results = map judge qrys
          in case judge_records resp_df parsed_results of
               Inl e \<Rightarrow> Inl e
             | Inr records \<Rightarrow> merge_left resp_df records))"

text \<open>
  Following the specification's words (section 4.5): a paper's ratio is its quotient, and
  is defined as 0 when its denominator is 0. The aggregator itself tests \<^verbatim>\<open>> 0\<close>
  (\<open>safe_ratio\<close>); the two are compared below.
\<close>

definition paper_ratio :: "int \<Rightarrow> int \<Rightarrow> real" where
  "paper_ratio num den = (if den = 0 then 0 else real_of_int num / real_of_int den)"

text \<open>
  Lines 183-231 in one piece, from the parsed reviewer results to the metrics.
\<close>

definition run_scoring ::
    "(judge_prompt \<Rightarrow> (string \<times> pyval) list) \<Rightarrow> (string \<Rightarrow> py_error + pyval) \<Rightarrow>
     paper_record list \<Rightarrow> (string \<times> pyval) list list \<Rightarrow> py_error + metrics" where
  "run_scoring judge py_eval flat_orig_df parsed_results =
     (case resp_df_of flat_orig_df parsed_results of
        Inl e \<Rightarrow> Inl e
      | Inr resp_df \<Rightarrow>
         (case judge_stage judge resp_df of
            Inl e \<Rightarrow> Inl e
          | Inr merged \<Rightarrow> compute_all_metrics py_eval merged))"

section \<open>Worked inputs\<close>

text \<open>
  No cell of the tables below is a string, so \<^verbatim>\<open>eval\<close> is never called on them.
\<close>

definition no_eval :: "string \<Rightarrow> py_error + pyval" where
  "no_eval s = Inl EvalError"

text \<open>
  The scenario of the specification's section 8: paper P1 has two ground-truth errors,
  three predictions and two judge matches; paper P2 has one ground-truth error and a
  reviewer that reports none, hence no judge record.
\<close>

definition scenario_df :: "scored_row list" where
  "scenario_df =
     [\<lparr>doi = ''P1'', parsed = PBool True, is_error = True,
       errors = PList [PStr ''e1'', PStr ''e2'', PStr ''e3''],
       error_location = [''l1'', ''l2''], error_annotation = [''a1'', ''a2''],
       matches = PList [PDict [(''description'', PStr ''d1'')],
                        PDict [(''description'', PStr ''d2'')]],
       match_descriptions = PList [PStr ''d1'', PStr ''d2'']\<rparr>,
      \<lparr>doi = ''P2'', parsed = PBool True, is_error = False,
       errors = PList [],
       error_location = [''l3''], error_annotation = [''a3''],
       matches = PNaN, match_descriptions = PNaN\<rparr>]"

definition scenario_counts :: "paper_counts list" where
  "scenario_counts =
     [\<lparr>pc_doi = ''P1'', k_i = 2, TP_i = 2, FP_i = 1, FN_i = 0\<rparr>,
      \<lparr>pc_doi = ''P2'', k_i = 1, TP_i = 0, FP_i = 0, FN_i = 1\<rparr>]"

text \<open>
  A judge that returns more matches than there are predictions.
\<close>

definition overcount_df :: "scored_row list" where
  "overcount_df =
     [\<lparr>doi = ''P3'', parsed = PBool True, is_error = True,
       errors = PList [PStr ''e1''],
       error_location = [''l1''], error_annotation = [''a1''],
       matches = PList [PDict [(''description'', PStr ''d1'')],
                        PDict [(''description'', PStr ''d2'')]],
       match_descriptions = PList [PStr ''d1'', PStr ''d2'']\<rparr>]"

definition overcount_counts :: "paper_counts list" where
  "overcount_counts = [\<lparr>pc_doi = ''P3'', k_i = 1, TP_i = 2, FP_i = - 1, FN_i = - 1\<rparr>]"

text \<open>
  A row whose two judge columns disagree in length.
\<close>

definition mismatch_df :: "scored_row list" where
  "mismatch_df =
     [\<lparr>doi = ''P4'', parsed = PBool True, is_error = True,
       errors = PList [PStr ''e1'', PStr ''e2''],
       error_location = [''l1'', ''l2''], error_annotation = [''a1'', ''a2''],
       matches = PList [PDict [(''description'', PStr ''d1'')],
                        PDict [(''description'', PStr ''d2'')]],
       match_descriptions = PList [PStr ''d1'']\<rparr>]"

definition mismatch_counts :: "paper_counts list" where
  "mismatch_counts = [\<lparr>pc_doi = ''P4'', k_i = 2, TP_i = 1, FP_i = 1, FN_i = 1\<rparr>]"

text \<open>
  A raw annotation table with two rows for paper p1, and its normalized form.
\<close>

definition example_columns :: "string list" where
  "example_columns = [''doi/arxiv_id'', ''title'', ''error_annotation'']"

definition raw_table :: "raw_row list" where
  "raw_table =
     [(''p2'', [(''title'', Atom ''T2''), (''error_annotation'', Atom ''a3'')]),
      (''p1'', [(''title'', Atom ''T1''), (''error_annotation'', Atom ''a1'')]),
      (''p1'', [(''title'', Atom ''T1''), (''error_annotation'', Atom ''a2'')])]"

definition normalized_table :: "raw_row list" where
  "normalized_table =
     [(''p1'', [(''title'', Atom ''T1''), (''error_annotation'', Cells [Atom ''a1'', Atom ''a2''])]),
      (''p2'', [(''title'', Atom ''T2''), (''error_annotation'', Cells [Atom ''a3''])])]"

text \<open>
  A completion client whose first five calls raise and whose later calls answer.
\<close>

definition flaky :: "nat \<Rightarrow> string \<Rightarrow> py_error + string" where
  "flaky n qry = (if n < 5 then Inl ValueError else Inr (''review of '' @ qry))"

text \<open>
  A completion client that raises on its second call only.
\<close>

definition stumbles :: "nat \<Rightarrow> string \<Rightarrow> py_error + string" where
  "stumbles n qry = (if n = 1 then Inl ValueError else Inr (''review of '' @ qry))"

text \<open>
  Two papers, in identifier order. The reviewer's answer for A could not be parsed (the
  parser's result carries \<^verbatim>\<open>parsed = False\<close> only); B's answer parsed and reports one
  error. \<open>resp_A\<close> and \<open>resp_B\<close> are their rows of \<^verbatim>\<open>resp_df\<close>. The judge
  \<open>echo_judge\<close> confirms every prediction it is shown, and \<open>reads_ok\<close> is an
  interpretation that accepts one text only.
\<close>

definition paper_A :: paper_record where
  "paper_A = \<lparr>pr_doi = ''A'', pr_error_location = [''locA''], pr_error_annotation = [''annA'']\<rparr>"

definition paper_B :: paper_record where
  "paper_B = \<lparr>pr_doi = ''B'', pr_error_location = [''locB''], pr_error_annotation = [''annB'']\<rparr>"

definition result_A :: "(string \<times> pyval) list" where
  "result_A = [(''parsed'', PBool False)]"

definition result_B :: "(string \<times> pyval) list" where
  "result_B = [(''parsed'', PBool True), (''has_error'', PBool True),
               (''errors'', PList [PStr ''errB''])]"

definition resp_A :: resp_row where
  "resp_A = \<lparr>doi = ''A'', parsed = PBool False, is_error = True, errors = PList [],
             error_location = [''locA''], error_annotation = [''annA'']\<rparr>"

definition resp_B :: resp_row where
  "resp_B = \<lparr>doi = ''B'', parsed = PBool True, is_error = True, errors = PList [PStr ''errB''],
             error_location = [''locB''], error_annotation = [''annB'']\<rparr>"

definition echo_judge :: "judge_prompt \<Rightarrow> (string \<times> pyval) list" where
  "echo_judge p =
     [(''matches'', PList (map (\<lambda>e. PDict [(''description'', e)]) (norm_list (predictions p))))]"

definition reads_ok :: "string \<Rightarrow> (string \<times> pyval) list option" where
  "reads_ok text =
     (if text = ''ok'' then Some [(''has_error'', PBool True), (''errors'', PList [PStr ''errB''])]
      else None)"

section \<open>Properties of the metrics aggregator\<close>

subsection \<open>When the aggregator returns\<close>

lemma sequence_sum_Inr:
  "sequence_sum xs = Inr vs \<Longrightarrow> xs = map Inr vs"
  by (induction xs arbitrary: vs) (auto split: sum.splits)

lemma sequence_sum_map_Inr: "sequence_sum (map Inr vs) = Inr vs"
  by (induction vs) auto

lemma compute_all_metrics_Inr:
  assumes "compute_all_metrics py_eval resp_df = Inr m"
  obtains ms lens where
    "map (\<lambda>r. norm_matches py_eval (matches r)) resp_df = map Inr ms"
    "map py_len ms = map Inr lens"
    "length lens = length resp_df"
    "m = aggregate (map2 count_row resp_df lens)"
proof -
  from assms obtain ms where ms: "sequence_sum (map (\<lambda>r. norm_matches py_eval (matches r)) resp_df) = Inr ms"
    by (auto simp: compute_all_metrics_def split: sum.splits)
  with assms obtain lens where lens: "sequence_sum (map py_len ms) = Inr lens"
    and m: "m = aggregate (map2 count_row resp_df lens)"
    by (auto simp: compute_all_metrics_def split: sum.splits)
  have a: "map (\<lambda>r. norm_matches py_eval (matches r)) resp_df = map Inr ms"
    using ms by (rule sequence_sum_Inr)
  have b: "map py_len ms = map Inr lens"
    using lens by (rule sequence_sum_Inr)
  have "length ms = length resp_df" using a by (metis length_map)
  moreover have "length lens = length ms" using b by (metis length_map)
  ultimately have "length lens = length resp_df" by simp
  from that[OF a b this m] show thesis .
qed

lemma norm_matches_not_str:
  "\<not> isinstance_str x \<Longrightarrow> norm_matches py_eval x = Inr (PList [])"
  by (cases x) (simp_all add: norm_matches_def)

text \<open>
  On a table without string-valued \<^verbatim>\<open>matches\<close> cells (every table the notebook itself
  builds) the aggregator raises nothing.
\<close>

lemma compute_all_metrics_no_str:
  assumes "\<forall>r \<in> set resp_df. \<not> isinstance_str (matches r)"
  shows "compute_all_metrics py_eval resp_df = Inr (aggregate (map (\<lambda>r. count_row r 0) resp_df))"
proof -
  have a: "map (\<lambda>r. norm_matches py_eval (matches r)) resp_df = map Inr (map (\<lambda>r. PList []) resp_df)"
    using assms by (simp add: norm_matches_not_str)
  have b: "map py_len (map (\<lambda>r. PList []) resp_df) = map Inr (map (\<lambda>r. 0) resp_df)"
    by simp
  have c: "map2 count_row resp_df (map (\<lambda>r. 0) resp_df) = map (\<lambda>r. count_row r 0) resp_df"
    by (induction resp_df) auto
  show ?thesis
    unfolding compute_all_metrics_def a sequence_sum_map_Inr sum.case b c ..
qed

lemma per_paper_aggregate [simp]: "per_paper (aggregate df) = df"
  by (simp add: aggregate_def Let_def)

lemma count_row_sel [simp]:
  "pc_doi (count_row r n) = doi r"
  "k_i (count_row r n) = int (length (error_annotation r))"
  "TP_i (count_row r n) = max (int n) (int (length (norm_list (match_descriptions r))))"
  "FP_i (count_row r n) = int (length (norm_list (errors r))) - max (int n) (int (length (norm_list (match_descriptions r))))"
  "FN_i (count_row r n) = int (length (error_annotation r)) - max (int n) (int (length (norm_list (match_descriptions r))))"
  by (simp_all add: count_row_def Let_def)

lemma count_row_nonneg:
  "0 \<le> TP_i (count_row r n)" "0 \<le> TP_i (count_row r n) + FP_i (count_row r n)"
  "0 \<le> TP_i (count_row r n) + FN_i (count_row r n)"
  by simp_all

lemma map2_count_row_nonneg:
  assumes "c \<in> set (map2 count_row rs lens)"
  shows "0 \<le> TP_i c \<and> 0 \<le> TP_i c + FP_i c \<and> 0 \<le> TP_i c + FN_i c"
proof -
  from assms obtain r n where "c = count_row r n"
    by (auto simp: set_zip)
  then show ?thesis using count_row_nonneg by simp
qed

lemma sum_list_add_int:
  "sum_list (map f xs) + sum_list (map g xs) = (\<Sum>x\<leftarrow>xs. f x + (g x :: int))"
  by (induction xs) auto

lemma safe_ratio_paper_ratio: "0 \<le> den \<Longrightarrow> safe_ratio num den = paper_ratio num den"
  by (simp add: safe_ratio_def paper_ratio_def)

lemma safe_ratio_nonneg: "0 \<le> num \<Longrightarrow> 0 \<le> safe_ratio num den"
  by (simp add: safe_ratio_def)

lemma safe_ratio_le_one: "num \<le> den \<Longrightarrow> safe_ratio num den \<le> 1"
  by (simp add: safe_ratio_def)

lemma aggregate_sel:
  "precision_micro (aggregate df) =
     safe_ratio (sum_list (map TP_i df)) (sum_list (map TP_i df) + sum_list (map FP_i df))"
  "recall_micro (aggregate df) =
     safe_ratio (sum_list (map TP_i df)) (sum_list (map TP_i df) + sum_list (map FN_i df))"
  "precision_macro (aggregate df) =
     series_mean (map (\<lambda>row. safe_ratio (TP_i row) (TP_i row + FP_i row)) df)"
  "recall_macro (aggregate df) =
     series_mean (map (\<lambda>row. safe_ratio (TP_i row) (TP_i row + FN_i row)) df)"
  "PPR (aggregate df) =
     (if df = [] then None
      else Some (real (length (filter (\<lambda>row. TP_i row = k_i row) df)) / real (length df)))"
  "N (aggregate df) = length df"
  by (simp_all add: aggregate_def Let_def filter_map o_def)

lemma scenario_run: "compute_all_metrics no_eval scenario_df = Inr (aggregate scenario_counts)"
  by (simp add: compute_all_metrics_def scenario_df_def scenario_counts_def norm_matches_def
      count_row_def norm_list_def)

lemma overcount_run: "compute_all_metrics no_eval overcount_df = Inr (aggregate overcount_counts)"
  by (simp add: compute_all_metrics_def overcount_df_def overcount_counts_def norm_matches_def
      count_row_def norm_list_def)

lemma mismatch_run: "compute_all_metrics no_eval mismatch_df = Inr (aggregate mismatch_counts)"
  by (simp add: compute_all_metrics_def mismatch_df_def mismatch_counts_def norm_matches_def
      count_row_def norm_list_def)

subsection \<open>Per-paper counts\<close>

text \<open>
  Whenever the aggregator returns, it has one count record per paper, in table order, and
  for every paper \<open>i\<close>: \<open>TP_i\<close> is the maximum of the length of the \<^verbatim>\<open>matches\<close> cell
  and the length of the \<^verbatim>\<open>match_descriptions\<close> cell, both as left by step 2;
  \<open>k_i\<close> is the number of ground-truth annotations; \<open>FP_i\<close> is the number of
  predicted errors minus \<open>TP_i\<close> and \<open>FN_i\<close> is \<open>k_i - TP_i\<close>, as signed
  integers without clamping.
\<close>

lemma per_paper_counts_after_step_2:
  assumes "compute_all_metrics py_eval resp_df = Inr m"
  shows "length (per_paper m) = length resp_df \<and>
    (\<forall>i < length resp_df.
       (\<exists>v n. norm_matches py_eval (matches (resp_df ! i)) = Inr v \<and> py_len v = Inr n \<and>
          TP_i (per_paper m ! i) =
            max (int n) (int (length (norm_list (match_descriptions (resp_df ! i)))))) \<and>
       k_i (per_paper m ! i) = int (length (error_annotation (resp_df ! i))) \<and>
       FP_i (per_paper m ! i) =
         int (length (norm_list (errors (resp_df ! i)))) - TP_i (per_paper m ! i) \<and>
       FN_i (per_paper m ! i) = k_i (per_paper m ! i) - TP_i (per_paper m ! i) \<and>
       TP_i (per_paper m ! i) + FP_i (per_paper m ! i) =
         int (length (norm_list (errors (resp_df ! i)))) \<and>
       TP_i (per_paper m ! i) + FN_i (per_paper m ! i) = k_i (per_paper m ! i))"
proof -
  from assms obtain ms lens where
    a: "map (\<lambda>r. norm_matches py_eval (matches r)) resp_df = map Inr ms" and
    b: "map py_len ms = map Inr lens" and
    len: "length lens = length resp_df" and
    m: "m = aggregate (map2 count_row resp_df lens)"
    by (rule compute_all_metrics_Inr)
  have lms: "length ms = length resp_df" using a by (metis length_map)
  have pp: "per_paper m = map2 count_row resp_df lens" by (simp add: m)
  have "length (per_paper m) = length resp_df" by (simp add: pp len)
  moreover have "\<forall>i < length resp_df.
       (\<exists>v n. norm_matches py_eval (matches (resp_df ! i)) = Inr v \<and> py_len v = Inr n \<and>
          TP_i (per_paper m ! i) =
            max (int n) (int (length (norm_list (match_descriptions (resp_df ! i)))))) \<and>
       k_i (per_paper m ! i) = int (length (error_annotation (resp_df ! i))) \<and>
       FP_i (per_paper m ! i) =
         int (length (norm_list (errors (resp_df ! i)))) - TP_i (per_paper m ! i) \<and>
       FN_i (per_paper m ! i) = k_i (per_paper m ! i) - TP_i (per_paper m ! i) \<and>
       TP_i (per_paper m ! i) + FP_i (per_paper m ! i) =
         int (length (norm_list (errors (resp_df ! i)))) \<and>
       TP_i (per_paper m ! i) + FN_i (per_paper m ! i) = k_i (per_paper m ! i)"
  proof (intro allI impI)
    fix i assume i: "i < length resp_df"
    have c: "per_paper m ! i = count_row (resp_df ! i) (lens ! i)"
      using i len by (simp add: pp)
    have "map (\<lambda>r. norm_matches py_eval (matches r)) resp_df ! i = map Inr ms ! i"
      by (simp only: a)
    then have v: "norm_matches py_eval (matches (resp_df ! i)) = Inr (ms ! i)"
      using i lms by simp
    have "map py_len ms ! i = map Inr lens ! i" by (simp only: b)
    then have n: "py_len (ms ! i) = Inr (lens ! i)"
      using i lms len by simp
    show "(\<exists>v n. norm_matches py_eval (matches (resp_df ! i)) = Inr v \<and> py_len v = Inr n \<and>
          TP_i (per_paper m ! i) =
            max (int n) (int (length (norm_list (match_descriptions (resp_df ! i)))))) \<and>
       k_i (per_paper m ! i) = int (length (error_annotation (resp_df ! i))) \<and>
       FP_i (per_paper m ! i) =
         int (length (norm_list (errors (resp_df ! i)))) - TP_i (per_paper m ! i) \<and>
       FN_i (per_paper m ! i) = k_i (per_paper m ! i) - TP_i (per_paper m ! i) \<and>
       TP_i (per_paper m ! i) + FP_i (per_paper m ! i) =
         int (length (norm_list (errors (resp_df ! i)))) \<and>
       TP_i (per_paper m ! i) + FN_i (per_paper m ! i) = k_i (per_paper m ! i)"
      unfolding c using v n by (simp del: max.absorb1 max.absorb2 max.absorb3 max.absorb4)
  qed
  ultimately show ?thesis by simp
qed

text \<open>
  The first operand of the maximum, by the content of the \<^verbatim>\<open>matches\<close> cell: the length
  of the evaluated text for a string, and 0 for anything else, a list of match objects
  included.
\<close>

lemma per_paper_TP_by_cell:
  assumes "compute_all_metrics py_eval resp_df = Inr m" and "i < length resp_df"
  shows "case matches (resp_df ! i) of
           PStr s \<Rightarrow>
             (\<exists>v n. py_eval s = Inr v \<and> py_len v = Inr n \<and>
                TP_i (per_paper m ! i) =
                  max (int n) (int (length (norm_list (match_descriptions (resp_df ! i))))))
         | _ \<Rightarrow> TP_i (per_paper m ! i) =
                  int (length (norm_list (match_descriptions (resp_df ! i))))"
proof -
  from per_paper_counts_after_step_2 [OF assms(1)] assms(2)
  obtain v n where
    v: "norm_matches py_eval (matches (resp_df ! i)) = Inr v" and
    n: "py_len v = Inr n" and
    tp: "TP_i (per_paper m ! i) =
           max (int n) (int (length (norm_list (match_descriptions (resp_df ! i)))))"
    by blast
  show ?thesis
  proof (cases "matches (resp_df ! i)")
    case (PStr s)
    with v have "py_eval s = Inr v" by (simp add: norm_matches_def)
    with n tp PStr show ?thesis by auto
  qed (use v n tp in \<open>auto simp: norm_matches_def\<close>)
qed

text \<open>
  On the over-counting table \<open>FP_i\<close> is \<open>-1\<close>: the count is not floored.
\<close>

lemma per_paper_counts_overcount:
  "compute_all_metrics no_eval overcount_df = Inr (aggregate overcount_counts) \<and>
   length (per_paper (aggregate overcount_counts)) = length overcount_df \<and>
   TP_i (per_paper (aggregate overcount_counts) ! 0) +
     FP_i (per_paper (aggregate overcount_counts) ! 0) =
     int (length (norm_list (errors (overcount_df ! 0)))) \<and>
   FP_i (per_paper (aggregate overcount_counts) ! 0) = - 1"
proof -
  have l: "0 < length overcount_df" by (simp add: overcount_df_def)
  note t = per_paper_counts_after_step_2 [OF overcount_run]
  from t have a: "length (per_paper (aggregate overcount_counts)) = length overcount_df"
    by blast
  from t l have b: "TP_i (per_paper (aggregate overcount_counts) ! 0) +
     FP_i (per_paper (aggregate overcount_counts) ! 0) =
     int (length (norm_list (errors (overcount_df ! 0))))"
    by blast
  have c: "FP_i (per_paper (aggregate overcount_counts) ! 0) = - 1"
    by (simp add: overcount_counts_def)
  from overcount_run a b c show ?thesis by blast
qed


text \<open>
  Claim C10. A \<^verbatim>\<open>matches\<close> cell that is not a string, an actual list of match
  objects included, is replaced by the empty list; for every such row \<open>TP_i\<close> is the
  length of the (normalized) \<^verbatim>\<open>match_descriptions\<close> cell alone, whatever the number of
  match objects.
\<close>

theorem matches_list_discarded:
  assumes "compute_all_metrics py_eval resp_df = Inr m"
  shows "\<forall>i < length resp_df. \<not> isinstance_str (matches (resp_df ! i)) \<longrightarrow>
      norm_matches py_eval (matches (resp_df ! i)) = Inr (PList []) \<and>
      TP_i (per_paper m ! i) = int (length (norm_list (match_descriptions (resp_df ! i))))"
proof (intro allI impI)
  fix i assume i: "i < length resp_df" and ns: "\<not> isinstance_str (matches (resp_df ! i))"
  from assms obtain ms lens where
    a: "map (\<lambda>r. norm_matches py_eval (matches r)) resp_df = map Inr ms" and
    b: "map py_len ms = map Inr lens" and
    len: "length lens = length resp_df" and
    m: "m = aggregate (map2 count_row resp_df lens)"
    by (rule compute_all_metrics_Inr)
  have lms: "length ms = length resp_df" using a by (metis length_map)
  have nm: "norm_matches py_eval (matches (resp_df ! i)) = Inr (PList [])"
    using ns by (rule norm_matches_not_str)
  have "map (\<lambda>r. norm_matches py_eval (matches r)) resp_df ! i = map Inr ms ! i"
    by (simp only: a)
  then have v: "ms ! i = PList []"
    using i lms nm by simp
  have "map py_len ms ! i = map Inr lens ! i" by (simp only: b)
  then have n: "lens ! i = 0"
    using i lms len v by simp
  have "per_paper m ! i = count_row (resp_df ! i) 0"
    using i len n by (simp add: m)
  then show "norm_matches py_eval (matches (resp_df ! i)) = Inr (PList []) \<and>
      TP_i (per_paper m ! i) = int (length (norm_list (match_descriptions (resp_df ! i))))"
    using nm by simp
qed

text \<open>
  Two match objects and one description give \<open>TP_i = 1\<close>.
\<close>

theorem matches_list_discarded_witness:
  "compute_all_metrics no_eval mismatch_df = Inr (aggregate mismatch_counts) \<and>
   \<not> isinstance_str (matches (mismatch_df ! 0)) \<and>
   isinstance_list (matches (mismatch_df ! 0)) \<and>
   py_len (matches (mismatch_df ! 0)) = Inr 2 \<and>
   norm_matches no_eval (matches (mismatch_df ! 0)) = Inr (PList []) \<and>
   TP_i (per_paper (aggregate mismatch_counts) ! 0) = 1"
proof -
  have l: "0 < length mismatch_df" by (simp add: mismatch_df_def)
  have ns: "\<not> isinstance_str (matches (mismatch_df ! 0))" by (simp add: mismatch_df_def)
  from matches_list_discarded [OF mismatch_run] l ns
  have "norm_matches no_eval (matches (mismatch_df ! 0)) = Inr (PList [])"
    and "TP_i (per_paper (aggregate mismatch_counts) ! 0) =
         int (length (norm_list (match_descriptions (mismatch_df ! 0))))"
    by blast+
  then show ?thesis
    using mismatch_run ns by (simp add: mismatch_df_def norm_list_def)
qed

subsection \<open>Micro averages\<close>

text \<open>
  Claim C3, as stated, fails: the values need not lie in \<open>[0, 1]\<close>. With one
  prediction and two judge matches, micro precision and micro recall are both 2.
\<close>

theorem micro_precision_range_counterexample:
  "compute_all_metrics no_eval overcount_df = Inr (aggregate overcount_counts) \<and>
   precision_micro (aggregate overcount_counts) = 2 \<and>
   recall_micro (aggregate overcount_counts) = 2 \<and>
   \<not> precision_micro (aggregate overcount_counts) \<le> 1 \<and>
   \<not> recall_micro (aggregate overcount_counts) \<le> 1"
  using overcount_run by (simp add: aggregate_sel overcount_counts_def safe_ratio_def)

text \<open>
  Claim C3, amended. Micro precision is \<open>\<Sum>TP / \<Sum>(TP + FP)\<close> and micro recall is
  \<open>\<Sum>TP / \<Sum>(TP + FN)\<close>, each 0 when its denominator is 0. Both are never negative;
  micro precision is at most 1 whenever the total of the \<open>FP_i\<close> is not negative, and
  micro recall is at most 1 whenever the total of the \<open>FN_i\<close> is not negative.
\<close>

theorem micro_metrics_unclamped:
  assumes "compute_all_metrics py_eval resp_df = Inr m"
  shows "precision_micro m =
      (if sum_list (map TP_i (per_paper m)) + sum_list (map FP_i (per_paper m)) = 0 then 0
       else real_of_int (sum_list (map TP_i (per_paper m))) /
            real_of_int (sum_list (map TP_i (per_paper m)) + sum_list (map FP_i (per_paper m)))) \<and>
    recall_micro m =
      (if sum_list (map TP_i (per_paper m)) + sum_list (map FN_i (per_paper m)) = 0 then 0
       else real_of_int (sum_list (map TP_i (per_paper m))) /
            real_of_int (sum_list (map TP_i (per_paper m)) + sum_list (map FN_i (per_paper m)))) \<and>
    0 \<le> precision_micro m \<and> 0 \<le> recall_micro m \<and>
    (0 \<le> sum_list (map FP_i (per_paper m)) \<longrightarrow> precision_micro m \<le> 1) \<and>
    (0 \<le> sum_list (map FN_i (per_paper m)) \<longrightarrow> recall_micro m \<le> 1)"
proof -
  from assms obtain ms lens where
    m: "m = aggregate (map2 count_row resp_df lens)"
    by (rule compute_all_metrics_Inr)
  define df where "df = map2 count_row resp_df lens"
  have pp: "per_paper m = df" by (simp add: m df_def)
  have nn: "\<And>c. c \<in> set df \<Longrightarrow> 0 \<le> TP_i c \<and> 0 \<le> TP_i c + FP_i c \<and> 0 \<le> TP_i c + FN_i c"
    unfolding df_def by (rule map2_count_row_nonneg)
  have tp: "0 \<le> sum_list (map TP_i df)"
    by (rule sum_list_nonneg) (use nn in auto)
  have dp: "0 \<le> sum_list (map TP_i df) + sum_list (map FP_i df)"
    unfolding sum_list_add_int by (rule sum_list_nonneg) (use nn in auto)
  have dr: "0 \<le> sum_list (map TP_i df) + sum_list (map FN_i df)"
    unfolding sum_list_add_int by (rule sum_list_nonneg) (use nn in auto)
  have p: "precision_micro m =
      paper_ratio (sum_list (map TP_i df)) (sum_list (map TP_i df) + sum_list (map FP_i df))"
    using dp by (simp add: m df_def [symmetric] aggregate_sel safe_ratio_paper_ratio)
  have r: "recall_micro m =
      paper_ratio (sum_list (map TP_i df)) (sum_list (map TP_i df) + sum_list (map FN_i df))"
    using dr by (simp add: m df_def [symmetric] aggregate_sel safe_ratio_paper_ratio)
  have p0: "0 \<le> precision_micro m"
    using tp by (simp add: m df_def [symmetric] aggregate_sel safe_ratio_nonneg)
  have r0: "0 \<le> recall_micro m"
    using tp by (simp add: m df_def [symmetric] aggregate_sel safe_ratio_nonneg)
  have p1: "0 \<le> sum_list (map FP_i df) \<Longrightarrow> precision_micro m \<le> 1"
    by (simp add: m df_def [symmetric] aggregate_sel safe_ratio_le_one)
  have r1: "0 \<le> sum_list (map FN_i df) \<Longrightarrow> recall_micro m \<le> 1"
    by (simp add: m df_def [symmetric] aggregate_sel safe_ratio_le_one)
  show ?thesis
    unfolding pp using p r p0 r0 p1 r1 by (simp add: paper_ratio_def)
qed

theorem micro_metrics_unclamped_witness:
  "compute_all_metrics no_eval scenario_df = Inr (aggregate scenario_counts) \<and>
   0 \<le> sum_list (map FP_i (per_paper (aggregate scenario_counts))) \<and>
   0 \<le> sum_list (map FN_i (per_paper (aggregate scenario_counts))) \<and>
   precision_micro (aggregate scenario_counts) = 2 / 3 \<and>
   recall_micro (aggregate scenario_counts) = 2 / 3 \<and>
   precision_micro (aggregate scenario_counts) \<le> 1 \<and>
   recall_micro (aggregate scenario_counts) \<le> 1"
proof -
  have fp: "0 \<le> sum_list (map FP_i (per_paper (aggregate scenario_counts)))"
    by (simp add: scenario_counts_def)
  have fn: "0 \<le> sum_list (map FN_i (per_paper (aggregate scenario_counts)))"
    by (simp add: scenario_counts_def)
  from micro_metrics_unclamped [OF scenario_run] fp fn
  have "precision_micro (aggregate scenario_counts) \<le> 1"
    and "recall_micro (aggregate scenario_counts) \<le> 1"
    by blast+
  moreover have "precision_micro (aggregate scenario_counts) = 2 / 3"
    and "recall_micro (aggregate scenario_counts) = 2 / 3"
    by (simp_all add: aggregate_sel scenario_counts_def safe_ratio_def)
  ultimately show ?thesis using scenario_run fp fn by simp
qed

subsection \<open>Macro averages\<close>

text \<open>
  Claim C9. On a non-empty table, macro precision and macro recall are the sum over all
  papers of the paper's own ratio, \<open>TP_i / (TP_i + FP_i)\<close> and \<open>TP_i / (TP_i + FN_i)\<close>
  with the ratio 0 on a zero denominator, divided by the number of papers; every paper
  has a count record, so none is left out of the mean.
\<close>

theorem macro_metrics_mean:
  assumes "compute_all_metrics py_eval resp_df = Inr m" and "resp_df \<noteq> []"
  shows "length (per_paper m) = length resp_df \<and>
    precision_macro m =
      Some (sum_list (map (\<lambda>c. paper_ratio (TP_i c) (TP_i c + FP_i c)) (per_paper m)) /
            real (length resp_df)) \<and>
    recall_macro m =
      Some (sum_list (map (\<lambda>c. paper_ratio (TP_i c) (TP_i c + FN_i c)) (per_paper m)) /
            real (length resp_df))"
proof -
  from assms(1) obtain ms lens where
    len: "length lens = length resp_df" and
    m: "m = aggregate (map2 count_row resp_df lens)"
    by (rule compute_all_metrics_Inr)
  define df where "df = map2 count_row resp_df lens"
  have pp: "per_paper m = df" by (simp add: m df_def)
  have ldf: "length df = length resp_df" by (simp add: df_def len)
  have ne: "df \<noteq> []" using ldf assms(2) by auto
  have nn: "\<And>c. c \<in> set df \<Longrightarrow> 0 \<le> TP_i c \<and> 0 \<le> TP_i c + FP_i c \<and> 0 \<le> TP_i c + FN_i c"
    unfolding df_def by (rule map2_count_row_nonneg)
  have e1: "map (\<lambda>row. safe_ratio (TP_i row) (TP_i row + FP_i row)) df =
            map (\<lambda>c. paper_ratio (TP_i c) (TP_i c + FP_i c)) df"
    by (rule map_cong [OF refl]) (simp add: nn safe_ratio_paper_ratio)
  have e2: "map (\<lambda>row. safe_ratio (TP_i row) (TP_i row + FN_i row)) df =
            map (\<lambda>c. paper_ratio (TP_i c) (TP_i c + FN_i c)) df"
    by (rule map_cong [OF refl]) (simp add: nn safe_ratio_paper_ratio)
  show ?thesis
    unfolding pp
    using ne ldf by (simp add: m df_def [symmetric] aggregate_sel e1 e2 series_mean_def)
qed

theorem macro_metrics_mean_witness:
  "compute_all_metrics no_eval scenario_df = Inr (aggregate scenario_counts) \<and>
   scenario_df \<noteq> [] \<and>
   precision_macro (aggregate scenario_counts) = Some (1 / 3) \<and>
   recall_macro (aggregate scenario_counts) = Some (1 / 2)"
proof -
  have ne: "scenario_df \<noteq> []" by (simp add: scenario_df_def)
  from macro_metrics_mean [OF scenario_run ne]
  show ?thesis
    using scenario_run ne by (simp add: scenario_counts_def scenario_df_def paper_ratio_def)
qed

subsection \<open>Perfect-paper rate\<close>

lemma map2_count_row_errors:
  "map (\<lambda>c. (pc_doi c, k_i c, TP_i c)) (map2 count_row (map (\<lambda>r. r\<lparr>errors := f r\<rparr>) rs) lens) =
   map (\<lambda>c. (pc_doi c, k_i c, TP_i c)) (map2 count_row rs lens)"
proof (induction rs arbitrary: lens)
  case Nil
  show ?case by simp
next
  case (Cons r rs)
  show ?case
  proof (cases lens)
    case Nil
    then show ?thesis by simp
  next
    case (Cons n ns)
    then show ?thesis using Cons.IH [of ns] by simp
  qed
qed

lemma filter_perfect_cong:
  assumes "map (\<lambda>c. (pc_doi c, k_i c, TP_i c)) xs = map (\<lambda>c. (pc_doi c, k_i c, TP_i c)) ys"
  shows "length (filter (\<lambda>c. TP_i c = k_i c) xs) = length (filter (\<lambda>c. TP_i c = k_i c) ys)"
  using assms
proof (induction xs arbitrary: ys)
  case Nil
  then show ?case by simp
next
  case (Cons x xs)
  then obtain y ys' where ys: "ys = y # ys'" by (cases ys) auto
  with Cons.prems have "k_i x = k_i y" "TP_i x = TP_i y"
    and "map (\<lambda>c. (pc_doi c, k_i c, TP_i c)) xs = map (\<lambda>c. (pc_doi c, k_i c, TP_i c)) ys'"
    by simp_all
  with Cons.IH [of ys'] show ?case by (simp add: ys)
qed

text \<open>
  Claim C4. On a non-empty table \<^verbatim>\<open>PPR\<close> is the number of papers with
  \<open>TP_i = k_i\<close> divided by the number of papers; a paper with \<open>k_i = 0\<close> and
  \<open>TP_i = 0\<close> is among them; and replacing the predicted errors of the papers by any
  other values (any number of extra unmatched predictions) changes neither which papers are
  perfect nor \<^verbatim>\<open>PPR\<close>.
\<close>

theorem PPR_ignores_false_positives:
  assumes "compute_all_metrics py_eval resp_df = Inr m" and "resp_df \<noteq> []"
  shows "PPR m = Some (real (length (filter (\<lambda>c. TP_i c = k_i c) (per_paper m))) /
                       real (length resp_df)) \<and>
    (\<forall>c \<in> set (per_paper m). k_i c = 0 \<and> TP_i c = 0 \<longrightarrow>
        c \<in> set (filter (\<lambda>c. TP_i c = k_i c) (per_paper m))) \<and>
    (\<forall>f. \<exists>m'. compute_all_metrics py_eval (map (\<lambda>r. r\<lparr>errors := f r\<rparr>) resp_df) = Inr m' \<and>
        map (\<lambda>c. (pc_doi c, k_i c, TP_i c)) (per_paper m') =
        map (\<lambda>c. (pc_doi c, k_i c, TP_i c)) (per_paper m) \<and>
        PPR m' = PPR m)"
proof -
  from assms(1) obtain ms lens where
    a: "map (\<lambda>r. norm_matches py_eval (matches r)) resp_df = map Inr ms" and
    b: "map py_len ms = map Inr lens" and
    len: "length lens = length resp_df" and
    m: "m = aggregate (map2 count_row resp_df lens)"
    by (rule compute_all_metrics_Inr)
  have ne: "map2 count_row resp_df lens \<noteq> []"
    using assms(2) len by (cases resp_df; cases lens) auto
  have ppr: "PPR m = Some (real (length (filter (\<lambda>c. TP_i c = k_i c) (per_paper m))) /
                       real (length resp_df))"
    using ne len by (simp add: m aggregate_sel)
  have zero: "\<forall>c \<in> set (per_paper m). k_i c = 0 \<and> TP_i c = 0 \<longrightarrow>
        c \<in> set (filter (\<lambda>c. TP_i c = k_i c) (per_paper m))"
    by simp
  have ext: "\<exists>m'. compute_all_metrics py_eval (map (\<lambda>r. r\<lparr>errors := f r\<rparr>) resp_df) = Inr m' \<and>
        map (\<lambda>c. (pc_doi c, k_i c, TP_i c)) (per_paper m') =
        map (\<lambda>c. (pc_doi c, k_i c, TP_i c)) (per_paper m) \<and>
        PPR m' = PPR m" for f
  proof -
    let ?df' = "map (\<lambda>r. r\<lparr>errors := f r\<rparr>) resp_df"
    let ?m' = "aggregate (map2 count_row ?df' lens)"
    have a': "map (\<lambda>r. norm_matches py_eval (matches r)) ?df' = map Inr ms"
      using a by (simp add: o_def)
    have c: "compute_all_metrics py_eval ?df' = Inr ?m'"
      unfolding compute_all_metrics_def a' sequence_sum_map_Inr sum.case b ..
    have same: "map (\<lambda>c. (pc_doi c, k_i c, TP_i c)) (per_paper ?m') =
        map (\<lambda>c. (pc_doi c, k_i c, TP_i c)) (per_paper m)"
      unfolding m per_paper_aggregate by (rule map2_count_row_errors)
    have ne': "map2 count_row ?df' lens \<noteq> []"
      using assms(2) len by (cases resp_df; cases lens) auto
    have l: "length (map2 count_row ?df' lens) = length (map2 count_row resp_df lens)"
      by simp
    have "PPR ?m' = PPR m"
      using ne ne' filter_perfect_cong [OF same] l
      by (simp add: m aggregate_sel del: length_map length_zip)
    with c same show ?thesis by blast
  qed
  from ppr zero ext show ?thesis by blast
qed

theorem PPR_ignores_false_positives_witness:
  "compute_all_metrics no_eval scenario_df = Inr (aggregate scenario_counts) \<and>
   scenario_df \<noteq> [] \<and>
   PPR (aggregate scenario_counts) = Some (1 / 2) \<and>
   (\<exists>m'. compute_all_metrics no_eval
            (map (\<lambda>r. r\<lparr>errors := PList (replicate 7 (PStr ''extra''))\<rparr>) scenario_df) = Inr m' \<and>
          PPR m' = Some (1 / 2))"
proof -
  have ne: "scenario_df \<noteq> []" by (simp add: scenario_df_def)
  note t = PPR_ignores_false_positives [OF scenario_run ne]
  from t have p: "PPR (aggregate scenario_counts) = Some (1 / 2)"
    by (simp add: scenario_counts_def scenario_df_def)
  from t have ex: "\<forall>f. \<exists>m'.
        compute_all_metrics no_eval (map (\<lambda>r. r\<lparr>errors := f r\<rparr>) scenario_df) = Inr m' \<and>
        map (\<lambda>c. (pc_doi c, k_i c, TP_i c)) (per_paper m') =
        map (\<lambda>c. (pc_doi c, k_i c, TP_i c)) (per_paper (aggregate scenario_counts)) \<and>
        PPR m' = PPR (aggregate scenario_counts)"
    by blast
  from ex [rule_format, of "\<lambda>r. PList (replicate 7 (PStr ''extra''))"] obtain m' where
    "compute_all_metrics no_eval
       (map (\<lambda>r. r\<lparr>errors := PList (replicate 7 (PStr ''extra''))\<rparr>) scenario_df) = Inr m'"
    "PPR m' = PPR (aggregate scenario_counts)"
    by blast
  with p scenario_run ne show ?thesis by auto
qed

section \<open>Properties of the record normalizer\<close>

lemma filter_key_unique:
  "distinct (map fst df) \<Longrightarrow> r \<in> set df \<Longrightarrow> filter (\<lambda>r'. fst r' = fst r) df = [r]"
proof (induction df)
  case Nil
  then show ?case by simp
next
  case (Cons a df)
  show ?case
  proof (cases "a = r")
    case True
    have "fst r \<notin> fst ` set df" using Cons.prems(1) True by simp
    then have "\<forall>r' \<in> set df. fst r' \<noteq> fst r" by (metis image_eqI)
    then have "filter (\<lambda>r'. fst r' = fst r) df = []"
      by (simp add: filter_empty_conv)
    then show ?thesis using True by simp
  next
    case False
    then have "r \<in> set df" using Cons.prems(2) by simp
    moreover have "fst a \<noteq> fst r" using Cons.prems(1) \<open>r \<in> set df\<close> by auto
    ultimately show ?thesis using Cons by simp
  qed
qed

lemma apply_agg_single:
  "apply_agg (if col \<in> set list_cols then AggList else AggFirst) [v] =
     (if col \<in> set list_cols then Cells [v] else v)"
  by (cases "v = Null") simp_all

lemma agg_row_wrap:
  assumes "distinct columns"
    and "map fst (snd r) = filter (\<lambda>col. col \<noteq> ''doi/arxiv_id'') columns"
  shows "map (\<lambda>(col, f). (col, apply_agg f [column_of col r])) (agg_dict columns) =
         snd (wrap_list_cols r)"
proof -
  have d: "distinct (map fst (snd r))" using assms by simp
  have "map (\<lambda>(col, f). (col, apply_agg f [column_of col r])) (agg_dict columns) =
        map (\<lambda>col. (col, apply_agg (if col \<in> set list_cols then AggList else AggFirst)
                            [column_of col r])) (map fst (snd r))"
    by (simp add: agg_dict_def assms(2) o_def)
  also have "\<dots> = map (\<lambda>(col, v). (col, apply_agg (if col \<in> set list_cols then AggList else AggFirst)
                            [column_of col r])) (snd r)"
    by (simp add: o_def case_prod_beta)
  also have "\<dots> = map (\<lambda>(col, v). (col, if col \<in> set list_cols then Cells [v] else v)) (snd r)"
  proof (rule map_cong [OF refl])
    fix x assume x: "x \<in> set (snd r)"
    obtain c v where cv: "x = (c, v)" by (cases x)
    have "map_of (snd r) c = Some v" using d x cv by simp
    then have "column_of c r = v" by (simp add: column_of_def)
    then show "(case x of (col, v) \<Rightarrow> (col, apply_agg (if col \<in> set list_cols then AggList else AggFirst)
                            [column_of col r])) =
          (case x of (col, v) \<Rightarrow> (col, if col \<in> set list_cols then Cells [v] else v))"
      unfolding cv by (simp only: prod.case apply_agg_single)
  qed
  finally show ?thesis by (simp add: wrap_list_cols_def)
qed

lemma insort_map_key:
  "insort (f x) (map f ys) = map f (insort_key f x ys)"
  by (induction ys) simp_all

lemma sort_map_key: "sort (map f xs) = map f (sort_key f xs)"
  by (induction xs) (simp_all add: insort_map_key)

lemma sort_keys_distinct:
  "distinct (map fst df) \<Longrightarrow> sort (remdups (map fst df)) = map fst (sort_key fst df)"
  by (simp add: distinct_remdups_id sort_map_key)

lemma groupby_agg_rows:
  assumes "distinct (map fst df)"
  shows "groupby_agg columns df =
     map (\<lambda>r. (fst r, map (\<lambda>(col, f). (col, apply_agg f [column_of col r])) (agg_dict columns)))
       (sort_key fst df)"
proof -
  have "groupby_agg columns df =
     map (\<lambda>r. (fst r,
            map (\<lambda>(col, f). (col, apply_agg f (map (column_of col)
                                   (filter (\<lambda>r'. fst r' = fst r) df))))
              (agg_dict columns)))
       (sort_key fst df)"
    by (simp add: groupby_agg_def sort_keys_distinct [OF assms] o_def)
  also have "\<dots> = map (\<lambda>r. (fst r, map (\<lambda>(col, f). (col, apply_agg f [column_of col r]))
                                   (agg_dict columns))) (sort_key fst df)"
  proof (rule map_cong [OF refl])
    fix r assume "r \<in> set (sort_key fst df)"
    then have "r \<in> set df" by simp
    then have "filter (\<lambda>r'. fst r' = fst r) df = [r]"
      using assms by (simp add: filter_key_unique)
    then show "(fst r, map (\<lambda>(col, f). (col, apply_agg f (map (column_of col)
                                   (filter (\<lambda>r'. fst r' = fst r) df)))) (agg_dict columns)) =
          (fst r, map (\<lambda>(col, f). (col, apply_agg f [column_of col r])) (agg_dict columns))"
      by simp
  qed
  finally show ?thesis .
qed

lemma groupby_agg_one_row_per_id:
  assumes "wf_table columns df" and "distinct (map fst df)"
  shows "groupby_agg columns df = map wrap_list_cols (sort_key fst df)"
proof -
  have dc: "distinct columns" using assms(1) by (simp add: wf_table_def)
  have "map (\<lambda>r. (fst r, map (\<lambda>(col, f). (col, apply_agg f [column_of col r])) (agg_dict columns)))
       (sort_key fst df) = map wrap_list_cols (sort_key fst df)"
  proof (rule map_cong [OF refl])
    fix r assume "r \<in> set (sort_key fst df)"
    then have "r \<in> set df" by simp
    then have "map fst (snd r) = filter (\<lambda>col. col \<noteq> ''doi/arxiv_id'') columns"
      using assms(1) by (simp add: wf_table_def list_all_iff)
    from agg_row_wrap [OF dc this]
    show "(fst r, map (\<lambda>(col, f). (col, apply_agg f [column_of col r])) (agg_dict columns)) =
          wrap_list_cols r"
      by (simp add: wrap_list_cols_def)
  qed
  with groupby_agg_rows [OF assms(2)] show ?thesis by simp
qed

lemma groupby_agg_keys: "map fst (groupby_agg columns df) = sort (remdups (map fst df))"
  by (simp add: groupby_agg_def o_def)

lemma groupby_agg_wf: "distinct columns \<Longrightarrow> wf_table columns (groupby_agg columns df)"
  by (simp add: wf_table_def groupby_agg_def list_all_iff agg_dict_def o_def case_prod_beta)

text \<open>
  The normalizer's output has one row per identifier, in ascending order; a second run on
  it wraps the list-valued columns once more.
\<close>

lemma normalizer_second_run:
  assumes "distinct columns"
  shows "groupby_agg columns (groupby_agg columns df) =
         map wrap_list_cols (groupby_agg columns df)"
proof -
  have d: "distinct (map fst (groupby_agg columns df))"
    by (simp add: groupby_agg_keys)
  have s: "sorted (map fst (groupby_agg columns df))"
    by (simp add: groupby_agg_keys)
  have "groupby_agg columns (groupby_agg columns df) =
        map wrap_list_cols (sort_key fst (groupby_agg columns df))"
    using groupby_agg_wf [OF assms] d by (rule groupby_agg_one_row_per_id)
  then show ?thesis by (simp add: sort_key_id_if_sorted [OF s])
qed

text \<open>
  Claim C5, as stated, fails: the normalizer run on its own output does not return that
  output, since \<^verbatim>\<open>list\<close> turns the list of annotations into a list holding that list.
\<close>

theorem normalizer_not_idempotent_counterexample:
  "groupby_agg example_columns raw_table = normalized_table \<and>
   groupby_agg example_columns normalized_table \<noteq> normalized_table"
  by (simp add: groupby_agg_def example_columns_def raw_table_def normalized_table_def
      agg_dict_def list_cols_def column_of_def)

text \<open>
  Claim C5, amended. Applied to a well-formed table that already has one row per
  identifier, the normalizer returns the same rows in ascending identifier order, with every
  column outside \<^verbatim>\<open>paper_category\<close>, \<^verbatim>\<open>error_location\<close> and \<^verbatim>\<open>error_annotation\<close>
  unchanged and each value of these three columns wrapped in a one-element list; on a table
  already in identifier order the rows keep their places.
\<close>

theorem normalizer_wraps_list_columns:
  assumes "wf_table columns df" and "distinct (map fst df)"
  shows "groupby_agg columns df = map wrap_list_cols (sort_key fst df) \<and>
    (sorted (map fst df) \<longrightarrow> groupby_agg columns df = map wrap_list_cols df)"
proof -
  have g: "groupby_agg columns df = map wrap_list_cols (sort_key fst df)"
    using assms by (rule groupby_agg_one_row_per_id)
  moreover have "groupby_agg columns df = map wrap_list_cols df" if "sorted (map fst df)"
    using g sort_key_id_if_sorted [OF that] by simp
  ultimately show ?thesis by blast
qed

theorem normalizer_wraps_list_columns_witness:
  "wf_table example_columns normalized_table \<and> distinct (map fst normalized_table) \<and>
   groupby_agg example_columns normalized_table =
     [(''p1'', [(''title'', Atom ''T1''),
                (''error_annotation'', Cells [Cells [Atom ''a1'', Atom ''a2'']])]),
      (''p2'', [(''title'', Atom ''T2''), (''error_annotation'', Cells [Cells [Atom ''a3'']])])]"
proof -
  have w: "wf_table example_columns normalized_table"
    by (simp add: wf_table_def example_columns_def normalized_table_def)
  have d: "distinct (map fst normalized_table)"
    by (simp add: normalized_table_def)
  have s: "sorted (map fst normalized_table)"
    by (simp add: normalized_table_def)
  from normalizer_wraps_list_columns [OF w d] s
  have "groupby_agg example_columns normalized_table = map wrap_list_cols normalized_table"
    by blast
  then show ?thesis
    using w d by (simp add: normalized_table_def wrap_list_cols_def list_cols_def)
qed

section \<open>Properties of the reviewer stage\<close>

lemma range_1_6: "[1..<6] = [1, 2, 3, 4, 5]"
  by (simp add: upt_rec)

lemma range_Suc_0_6: "[Suc 0..<6] = [1, 2, 3, 4, 5]"
  using range_1_6 by simp

lemma attempts_calls:
  "attempts completion qry as (c, rs) = (c', rs') \<Longrightarrow>
     c \<le> c' \<and> c' \<le> c + length as \<and> (as \<noteq> [] \<longrightarrow> c < c') \<and>
     (\<forall>j. c \<le> j \<and> j + 1 < c' \<longrightarrow> isl (completion j qry))"
proof (induction as arbitrary: c rs)
  case Nil
  then show ?case by auto
next
  case (Cons a as)
  show ?case
  proof (cases "completion c qry")
    case (Inr res)
    with Cons.prems show ?thesis by auto
  next
    case (Inl exc)
    with Cons.prems have
      "attempts completion qry as (Suc c, if a = 5 then rs @ [None] else rs) = (c', rs')"
      by simp
    from Cons.IH [OF this] have ih: "Suc c \<le> c'" "c' \<le> Suc c + length as"
      "\<forall>j. Suc c \<le> j \<and> j + 1 < c' \<longrightarrow> isl (completion j qry)"
      by blast+
    have "isl (completion j qry)" if "c \<le> j \<and> j + 1 < c'" for j
    proof (cases "j = c")
      case True
      then show ?thesis using Inl by simp
    next
      case False
      with that have "Suc c \<le> j \<and> j + 1 < c'" by simp
      with ih(3) show ?thesis by blast
    qed
    with ih(1,2) show ?thesis by auto
  qed
qed

lemma attempts_response:
  "attempts completion qry [1..<6] (c, rs) = (c', rs') \<Longrightarrow>
     (case completion (c' - 1) qry of
        Inr res \<Rightarrow> rs' = rs @ [Some res]
      | Inl exc \<Rightarrow> c' = c + 5 \<and> rs' = rs @ [None])"
  unfolding range_1_6 by (auto split: sum.splits)

lemma attempts_appends_one:
  assumes "attempts completion qry [1..<6] (c, rs) = (c', rs')"
  shows "\<exists>x. rs' = rs @ [x]"
  using attempts_response [OF assms] by (cases "completion (c' - 1) qry") auto

lemma reviewer_loop_batch:
  "reviewer_loop completion qrys (c, rs) = (c', rs') \<Longrightarrow>
     length rs' = length rs + length qrys \<and> take (length rs) rs' = rs \<and>
     c' \<le> c + 5 * length qrys"
proof (induction qrys arbitrary: c rs)
  case Nil
  then show ?case by simp
next
  case (Cons q qrys)
  obtain c1 rs1 where a: "attempts completion q [1..<6] (c, rs) = (c1, rs1)"
    by (cases "attempts completion q [1..<6] (c, rs)")
  from attempts_appends_one [OF a] obtain x where x: "rs1 = rs @ [x]" by blast
  from attempts_calls [OF a] have c1: "c1 \<le> c + 5" by simp
  from Cons.prems a have "reviewer_loop completion qrys (c1, rs1) = (c', rs')" by simp
  from Cons.IH [OF this] have "length rs' = length rs1 + length qrys"
    "take (length rs1) rs' = rs1" "c' \<le> c1 + 5 * length qrys"
    by blast+
  moreover from \<open>take (length rs1) rs' = rs1\<close> have "take (length rs) rs' = rs"
    unfolding x by (metis append_eq_conv_conj length_append take_add take_all_iff le_refl
        append.assoc append_take_drop_id)
  ultimately show ?case using x c1 by simp
qed

lemma reviewer_loop_append:
  "reviewer_loop completion (qs @ qs') st =
     reviewer_loop completion qs' (reviewer_loop completion qs st)"
  by (induction qs arbitrary: st) simp_all

lemma flaky_run: "reviewer_loop flaky [''q1'', ''q2''] (0, []) = (6, [None, Some ''review of q2''])"
  by (simp add: range_Suc_0_6 flaky_def)

text \<open>
  Claim C6. For one paper, started after \<open>calls\<close> earlier calls, the loop makes at
  least one and at most five calls; every call before the last one raised; if the last
  call answered, its response is appended, and if it raised, it was the fifth attempt and
  \<^verbatim>\<open>None\<close> is appended. For a batch, the loop appends exactly one entry per paper to
  \<^verbatim>\<open>responses\<close>, keeps the earlier entries, and makes at most five calls per paper: a
  paper whose attempts all fail does not stop the iteration. Every paper of a batch,
  whatever its place, goes through this same loop of five attempts, started in the state
  the earlier papers left, and the later papers continue from the state it leaves; an
  empty batch changes nothing.
\<close>

theorem reviewer_retry_bounded:
  "(case attempts completion qry [1..<6] (calls, responses) of (calls', responses') \<Rightarrow>
      calls < calls' \<and> calls' \<le> calls + 5 \<and>
      (\<forall>j. calls \<le> j \<and> j + 1 < calls' \<longrightarrow> isl (completion j qry)) \<and>
      (case completion (calls' - 1) qry of
         Inr res \<Rightarrow> responses' = responses @ [Some res]
       | Inl exc \<Rightarrow> calls' = calls + 5 \<and> responses' = responses @ [None])) \<and>
   (case reviewer_loop completion qrys (calls, responses) of (calls', responses') \<Rightarrow>
      length responses' = length responses + length qrys \<and>
      take (length responses) responses' = responses \<and>
      calls' \<le> calls + 5 * length qrys) \<and>
   reviewer_loop completion [] st = st \<and>
   reviewer_loop completion (earlier @ qry # later) st =
     reviewer_loop completion later
       (attempts completion qry [1..<6] (reviewer_loop completion earlier st))"
proof -
  have link: "reviewer_loop completion (earlier @ qry # later) st =
     reviewer_loop completion later
       (attempts completion qry [1..<6] (reviewer_loop completion earlier st))"
    by (simp add: reviewer_loop_append)
  obtain c1 rs1 where a: "attempts completion qry [1..<6] (calls, responses) = (c1, rs1)"
    by (cases "attempts completion qry [1..<6] (calls, responses)")
  obtain c2 rs2 where b: "reviewer_loop completion qrys (calls, responses) = (c2, rs2)"
    by (cases "reviewer_loop completion qrys (calls, responses)")
  from attempts_calls [OF a] have "calls < c1" "c1 \<le> calls + 5"
    "\<forall>j. calls \<le> j \<and> j + 1 < c1 \<longrightarrow> isl (completion j qry)"
    by simp_all
  with attempts_response [OF a] reviewer_loop_batch [OF b] link show ?thesis
    unfolding a b by simp
qed

text \<open>
  With \<open>flaky\<close> the first paper uses up its five attempts and the second is answered
  at once; with \<open>stumbles\<close> the second paper is answered at its second attempt.
\<close>

theorem reviewer_retry_bounded_witness:
  "reviewer_loop flaky [''q1'', ''q2''] (0, []) = (6, [None, Some ''review of q2'']) \<and>
   attempts flaky ''q1'' [1..<6] (0, []) = (5, [None]) \<and>
   isl (flaky 3 ''q1'') \<and>
   length [None, Some ''review of q2''] = length ([] :: string option list) + length [''q1'', ''q2''] \<and>
   reviewer_loop stumbles [''q1'', ''q2''] (0, []) =
     attempts stumbles ''q2'' [1..<6] (reviewer_loop stumbles [''q1''] (0, [])) \<and>
   reviewer_loop stumbles [''q1'', ''q2''] (0, []) =
     (3, [Some ''review of q1'', Some ''review of q2''])"
proof -
  have a: "attempts flaky ''q1'' [1..<6] (0, []) = (5, [None])"
    by (simp add: range_Suc_0_6 flaky_def)
  have f: "isl (flaky 3 ''q1'')" by (simp add: flaky_def)
  have s1: "reviewer_loop stumbles [''q1''] (0, []) = (1, [Some ''review of q1''])"
    by (simp add: range_Suc_0_6 stumbles_def)
  have s2: "attempts stumbles ''q2'' [1..<6] (1, [Some ''review of q1'']) =
      (3, [Some ''review of q1'', Some ''review of q2''])"
    by (simp add: range_Suc_0_6 stumbles_def)
  from reviewer_retry_bounded [where completion = stumbles and qry = "''q2''" and calls = 0
      and responses = "[]" and qrys = "[]" and earlier = "[''q1'']" and later = "[]"
      and st = "(0, [])"]
  have l: "reviewer_loop stumbles [''q1'', ''q2''] (0, []) =
     attempts stumbles ''q2'' [1..<6] (reviewer_loop stumbles [''q1''] (0, []))"
    by simp
  from l have r: "reviewer_loop stumbles [''q1'', ''q2''] (0, []) =
     (3, [Some ''review of q1'', Some ''review of q2''])"
    unfolding s1 s2 .
  from flaky_run a f l r show ?thesis by simp
qed

section \<open>Properties of the parse step and the reviewer table\<close>

text \<open>
  Claim C7. For a paper whose raw response is absent, or whose text cannot be interpreted
  as the expected structured form, the parser returns a result with \<^verbatim>\<open>parsed = False\<close>
  (it is a total function: nothing is raised), and the row built from it has
  \<^verbatim>\<open>parsed = False\<close>, \<^verbatim>\<open>is_error = True\<close> and the empty list of errors; the table
  constructor succeeds, and the paper is not among the judged ones.
\<close>

theorem parse_failure_defaults:
  assumes "raw_response = None \<or> (\<exists>text. raw_response = Some text \<and> interpret text = None)"
  shows "extract_response_dict interpret raw_response = [(''parsed'', PBool False)] \<and>
    resp_row_of p (extract_response_dict interpret raw_response) =
      \<lparr>doi = pr_doi p, parsed = PBool False, is_error = True, errors = PList [],
       error_location = pr_error_location p, error_annotation = pr_error_annotation p\<rparr> \<and>
    resp_df_of [p] [extract_response_dict interpret raw_response] =
      Inr [resp_row_of p (extract_response_dict interpret raw_response)] \<and>
    error_cases [resp_row_of p (extract_response_dict interpret raw_response)] = Inr []"
proof -
  have e: "extract_response_dict interpret raw_response = [(''parsed'', PBool False)]"
    using assms by (auto simp: extract_response_dict_def)
  show ?thesis
    unfolding e by (simp add: resp_row_of_def resp_df_of_def dict_get_def error_cases_def)
qed

theorem parse_failure_defaults_witness:
  "(Some ''garbage'' = None \<or> (\<exists>text. Some ''garbage'' = Some text \<and> reads_ok text = None)) \<and>
   resp_row_of paper_A (extract_response_dict reads_ok (Some ''garbage'')) = resp_A \<and>
   resp_row_of paper_A (extract_response_dict reads_ok None) = resp_A"
proof -
  have h1: "Some ''garbage'' = None \<or> (\<exists>text. Some ''garbage'' = Some text \<and> reads_ok text = None)"
    by (simp add: reads_ok_def)
  have h2: "(None :: string option) = None \<or> (\<exists>text. None = Some text \<and> reads_ok text = None)"
    by simp
  have pa: "\<lparr>doi = pr_doi paper_A, parsed = PBool False, is_error = True, errors = PList [],
       error_location = pr_error_location paper_A,
       error_annotation = pr_error_annotation paper_A\<rparr> = resp_A"
    by (simp add: paper_A_def resp_A_def)
  from parse_failure_defaults [OF h1, of paper_A]
  have a: "resp_row_of paper_A (extract_response_dict reads_ok (Some ''garbage'')) = resp_A"
    unfolding pa by blast
  from parse_failure_defaults [OF h2, of paper_A]
  have b: "resp_row_of paper_A (extract_response_dict reads_ok None) = resp_A"
    unfolding pa by blast
  from h1 a b show ?thesis by blast
qed

section \<open>Properties of the judge stage\<close>

text \<open>
  The rows sent to the judge. On a table whose \<^verbatim>\<open>parsed\<close> cells are all booleans they
  are the rows with \<^verbatim>\<open>parsed\<close> and \<^verbatim>\<open>is_error\<close> both true; an integer 1 also selects
  its row, and a string stops the run.
\<close>

lemma error_cases_Cons:
  "error_cases (row # resp_df) =
     (case mask_cell (parsed row) (is_error row) of
        Inl e \<Rightarrow> Inl e
      | Inr b \<Rightarrow>
         (case error_cases resp_df of
            Inl e \<Rightarrow> Inl e
          | Inr cases \<Rightarrow> Inr (if b then row # cases else cases)))"
  by (simp add: error_cases_def split: sum.splits)

lemma error_cases_boolean:
  assumes "list_all (\<lambda>row. parsed row = PBool True \<or> parsed row = PBool False) resp_df"
  shows "error_cases resp_df =
     Inr (filter (\<lambda>row. parsed row = PBool True \<and> is_error row) resp_df)"
  using assms
proof (induction resp_df)
  case Nil
  show ?case by (simp add: error_cases_def)
next
  case (Cons row resp_df)
  then show ?case by (auto simp: error_cases_Cons)
qed

lemma error_cases_integer_one:
  "error_cases [row\<lparr>parsed := PInt 1, is_error := True\<rparr>] =
     Inr [row\<lparr>parsed := PInt 1, is_error := True\<rparr>]"
  by (simp add: error_cases_def)

lemma error_cases_string_raises:
  "error_cases (row\<lparr>parsed := PStr s\<rparr> # resp_df) = Inl TypeError"
  by (simp add: error_cases_def)

text \<open>
  Whatever the table, the judge records carry the identifiers of its first papers, as many
  as there are judged papers, and not the identifiers of the judged papers themselves.
\<close>

lemma make_record_doi: "make_record d res = Inr r \<Longrightarrow> jr_doi r = d"
  by (auto simp: make_record_def Let_def split: sum.splits)

lemma map2_make_record_identifiers:
  "sequence_sum (map2 make_record ds rs) = Inr records \<Longrightarrow>
     map jr_doi records = take (length rs) ds"
proof (induction ds arbitrary: rs records)
  case Nil
  then show ?case by simp
next
  case (Cons d ds)
  show ?case
  proof (cases rs)
    case Nil
    with Cons.prems show ?thesis by simp
  next
    case (Cons res rs')
    with Cons.prems obtain r records' where
      r: "make_record d res = Inr r" and
      rest: "sequence_sum (map2 make_record ds rs') = Inr records'" and
      records: "records = r # records'"
      by (auto split: sum.splits)
    from Cons.IH [OF rest] make_record_doi [OF r] show ?thesis
      by (simp add: records Cons)
  qed
qed

lemma judge_records_identifiers:
  assumes "error_cases resp_df = Inr cases"
    and "judge_records resp_df (map judge (map judge_qry cases)) = Inr records"
  shows "map jr_doi records = take (length cases) (map doi resp_df)"
  using map2_make_record_identifiers [OF assms(2) [unfolded judge_records_def]] by simp

text \<open>
  A judge record has as many descriptions as match objects: on the tables the notebook
  itself builds, the two counts the aggregator compares cannot differ.
\<close>

lemma make_record_lengths_agree:
  assumes "make_record d res = Inr r"
  shows "\<exists>items ds. py_iter (jr_matches r) = Inr items \<and>
           jr_match_descriptions r = PList ds \<and> length ds = length items"
proof -
  from assms obtain items ds where
    i: "py_iter (dict_get res ''matches'' (PList [])) = Inr items" and
    s: "sequence_sum (map get_description items) = Inr ds" and
    r: "r = \<lparr>jr_doi = d, jr_matches = dict_get res ''matches'' (PList []),
              jr_match_descriptions = PList ds\<rparr>"
    by (auto simp: make_record_def Let_def split: sum.splits)
  from sequence_sum_Inr [OF s] have "length ds = length items"
    by (metis length_map)
  with i r show ?thesis by simp
qed

subsection \<open>A table whose first paper is not judged\<close>

text \<open>
  Claim C1 on the table \<open>[resp_A, resp_B]\<close>. Only B is an error case, and the one judge
  response is the judge's answer to B's prompt. The records are assembled by zipping the
  identifier column of the whole table with the judge results, so the response is filed
  under A: after the left merge, A (not parsed) carries B's matches and B (parsed, with an
  error) carries \<^verbatim>\<open>nan\<close> in both judge columns.
\<close>

theorem judge_results_zipped_with_all_papers:
  "error_cases [resp_A, resp_B] = Inr [resp_B] \<and>
   echo_judge (judge_qry resp_B) = [(''matches'', PList [PDict [(''description'', PStr ''errB'')]])] \<and>
   judge_stage echo_judge [resp_A, resp_B] =
     Inr [with_judge resp_A (PList [PDict [(''description'', PStr ''errB'')]]) (PList [PStr ''errB'']),
          with_judge resp_B PNaN PNaN]"
  by (simp add: judge_stage_def error_cases_def judge_qry_def judge_records_def make_record_def
      merge_left_def echo_judge_def resp_A_def resp_B_def dict_get_def norm_list_def with_judge_def)

text \<open>
  Claim C8 on the same two papers. Paper A, whose reviewer result is the unparsed one, is
  scored with B's match: \<open>TP = 1\<close>, \<open>FP = -1\<close>, \<open>FN = 0\<close> instead of
  \<open>TP = 0\<close>, \<open>FP = 0\<close>, \<open>FN = k = 1\<close>.
\<close>

theorem unjudged_paper_scored_with_foreign_matches:
  "resp_df_of [paper_A, paper_B] [result_A, result_B] = Inr [resp_A, resp_B] \<and>
   run_scoring echo_judge no_eval [paper_A, paper_B] [result_A, result_B] =
     Inr (aggregate
       [\<lparr>pc_doi = ''A'', k_i = 1, TP_i = 1, FP_i = - 1, FN_i = 0\<rparr>,
        \<lparr>pc_doi = ''B'', k_i = 1, TP_i = 0, FP_i = 1, FN_i = 1\<rparr>])"
  by (simp add: run_scoring_def resp_df_of_def resp_row_of_def paper_A_def paper_B_def
      result_A_def result_B_def resp_A_def resp_B_def
      judge_stage_def error_cases_def judge_qry_def judge_records_def make_record_def
      merge_left_def echo_judge_def dict_get_def norm_list_def with_judge_def
      compute_all_metrics_def norm_matches_def count_row_def)

text \<open>
  A row that does carry null judge columns is counted as the specification says,
  \<open>TP = 0\<close> and \<open>FN = k\<close>, with \<open>FP\<close> the number of its predictions.
\<close>

lemma null_match_row_counts:
  "count_row (with_judge r PNaN PNaN) 0 =
     \<lparr>pc_doi = doi r, k_i = int (length (error_annotation r)), TP_i = 0,
      FP_i = int (length (norm_list (errors r))), FN_i = int (length (error_annotation r))\<rparr>"
  by (simp add: count_row_def with_judge_def norm_list_def Let_def)

text \<open>
  When no paper at all is judged, the table of judge records has no columns and the merge
  raises: no paper is scored.
\<close>

lemma no_judged_paper_KeyError:
  "run_scoring judge py_eval [paper_A] [result_A] = Inl KeyError"
  by (simp add: run_scoring_def resp_df_of_def resp_row_of_def paper_A_def result_A_def
      judge_stage_def error_cases_def judge_records_def merge_left_def dict_get_def)

end
